theory Spec2Isabelle
  imports Main "HOL-Library.Sublist" "HOL-Library.AList"
begin

section \<open>The tag search of \<^verbatim>\<open>app/item_search.py\<close>\<close>

text \<open>
  The module keeps three globals: \<^verbatim>\<open>database\<close> (a \<^verbatim>\<open>marisa_trie.Trie\<close> of the indexed
  words), \<^verbatim>\<open>word_to_ids\<close> (a \<^verbatim>\<open>defaultdict(set)\<close> from a word to the
  \<^verbatim>\<open>(item id, subtype index)\<close> pairs tagged with it) and \<^verbatim>\<open>_type_cback\<close> (the
  closure \<^verbatim>\<open>on_type\<close> once \<^verbatim>\<open>init\<close> has run, \<^verbatim>\<open>None\<close> before).
  \<^verbatim>\<open>rebuild_database\<close> refills the first two from \<^verbatim>\<open>UI.item_list\<close> and calls the third;
  \<^verbatim>\<open>on_type\<close> reads the search box, looks its words up and hands the identifiers found
  to \<^verbatim>\<open>refresh_cback\<close>.

  Mutation is modelled by passing a state record, a raised exception by a result of
  type \<open>error + unit\<close> returned together with the state reached when it was raised, and
  every loop by a recursive function over the list iterated.
\<close>

subsection \<open>Strings\<close>

text \<open>
  The model covers ASCII text. \<^verbatim>\<open>str.split()\<close> with no argument cuts at runs of
  whitespace and yields no empty word; the ASCII characters for which \<^verbatim>\<open>str.isspace\<close>
  holds are HT, LF, VT, FF, CR, FS, GS, RS, US and the space.
\<close>

definition isspace :: "char \<Rightarrow> bool" where
  "isspace c = (c \<in> set [CHR 0x09, CHR 0x0A, CHR 0x0B, CHR 0x0C, CHR 0x0D,
                          CHR 0x1C, CHR 0x1D, CHR 0x1E, CHR 0x1F, CHR 0x20])"

function split :: "string \<Rightarrow> string list" where
  "split s =
     (case dropWhile isspace s of
        [] \<Rightarrow> []
      | c # cs \<Rightarrow> (c # takeWhile (\<lambda>x. \<not> isspace x) cs) # split (dropWhile (\<lambda>x. \<not> isspace x) cs))"
  by pat_completeness auto
termination
proof (relation "measure length")
  fix s :: string and c cs
  assume "dropWhile isspace s = c # cs"
  then have "length s \<ge> Suc (length cs)"
    using length_dropWhile_le [of isspace s] by simp
  moreover have "length (dropWhile (\<lambda>x. \<not> isspace x) cs) \<le> length cs"
    by (rule length_dropWhile_le)
  ultimately show "(dropWhile (\<lambda>x. \<not> isspace x) cs, s) \<in> measure length"
    by simp
qed simp

declare split.simps [simp del]

text \<open>\<^verbatim>\<open>str.casefold\<close> on ASCII text turns the capital letters into small ones.\<close>

definition casefold_char :: "char \<Rightarrow> char" where
  "casefold_char c =
     (case map_of (zip ''ABCDEFGHIJKLMNOPQRSTUVWXYZ'' ''abcdefghijklmnopqrstuvwxyz'') c of
        Some l \<Rightarrow> l
      | None \<Rightarrow> c)"

definition casefold :: "string \<Rightarrow> string" where
  "casefold s = map casefold_char s"

subsection \<open>The data\<close>

text \<open>An identifier is the pair \<^verbatim>\<open>(item.id, subtype_ind)\<close>.\<close>

type_synonym ident = "string \<times> int"

text \<open>
  \<^verbatim>\<open>word_to_ids\<close>: a dictionary in insertion order, as an association list with one
  pair per key.
\<close>

type_synonym word_map = "(string \<times> ident set) list"

text \<open>
  \<^verbatim>\<open>marisa_trie.Trie\<close> is a static set of keys that enumerates the keys starting with a
  given prefix; the model keeps the keys it was built from.
\<close>

datatype trie = Trie (keys: "string list")

definition iterkeys :: "trie \<Rightarrow> string \<Rightarrow> string list" where
  "iterkeys t p = filter (prefix p) (keys t)"

datatype error = TypeError | CatalogError

text \<open>
  An element of \<^verbatim>\<open>UI.item_list.values()\<close>, as far as this module reads it: the
  attribute \<^verbatim>\<open>id\<close>, the attribute \<^verbatim>\<open>visual_subtypes\<close> and the method
  \<^verbatim>\<open>get_tags\<close>. The loop iterates what \<^verbatim>\<open>get_tags\<close> returns: the model gives the tags
  it yields, in order, and the exception that ends the iteration when it raises, which
  it may do after it has yielded tags.
\<close>

record item =
  item_id :: string
  visual_subtypes :: "int list"
  get_tags :: "int \<Rightarrow> string list \<times> error option"

datatype callback = On_type

text \<open>
  The globals of the module, and what the closure \<^verbatim>\<open>on_type\<close> captures: the text of
  \<^verbatim>\<open>search_var\<close>, the selection of \<^verbatim>\<open>searchbar\<close>, and \<^verbatim>\<open>refresh_cback\<close>, of which the
  model records the arguments of its calls, oldest first (\<open>None\<close> is Python's
  \<^verbatim>\<open>None\<close>).
\<close>

record state =
  database :: trie
  word_to_ids :: word_map
  type_cback :: "callback option"
  search_var :: string
  selection :: "(nat \<times> nat) option"
  refreshed :: "ident set option list"

text \<open>The module as imported: an empty trie, an empty dictionary, no callback.\<close>

definition initial :: state where
  "initial = \<lparr>database = Trie [], word_to_ids = [], type_cback = None,
              search_var = [], selection = None, refreshed = []\<rparr>"

subsection \<open>The dictionary\<close>

text \<open>
  \<^verbatim>\<open>word_to_ids[k]\<close> on a \<^verbatim>\<open>defaultdict(set)\<close>: a present key gives its set; a missing
  key is first inserted with an empty set, which is then the result.
\<close>

definition getitem :: "word_map \<Rightarrow> string \<Rightarrow> ident set \<times> word_map" where
  "getitem m k =
     (case map_of m k of
        Some s \<Rightarrow> (s, m)
      | None \<Rightarrow> ({}, AList.update k {} m))"

text \<open>\<^verbatim>\<open>word_to_ids[k].add(i)\<close>\<close>

definition add_ident :: "word_map \<Rightarrow> string \<Rightarrow> ident \<Rightarrow> word_map" where
  "add_ident m k i = (case getitem m k of (s, m') \<Rightarrow> AList.update k (insert i s) m')"

subsection \<open>\<^verbatim>\<open>on_type\<close>\<close>

text \<open>
  \<^verbatim>\<open>refresh_cback\<close> is the caller's; the model records its argument and, as the
  source's comment says of it, drops the selection of the search bar.
\<close>

definition refresh_cback :: "ident set option \<Rightarrow> state \<Rightarrow> state" where
  "refresh_cback arg st = st\<lparr>selection := None, refreshed := refreshed st @ [arg]\<rparr>"

text \<open>The inner loop \<^verbatim>\<open>for name in database.iterkeys(word): found |= word_to_ids[name]\<close>.\<close>

fun lookup_names :: "string list \<Rightarrow> ident set \<Rightarrow> word_map \<Rightarrow> ident set \<times> word_map" where
  "lookup_names [] found m = (found, m)"
| "lookup_names (name # names) found m =
     (case getitem m name of (s, m') \<Rightarrow> lookup_names names (found \<union> s) m')"

text \<open>The outer loop \<^verbatim>\<open>for word in words\<close>.\<close>

fun search_words :: "trie \<Rightarrow> string list \<Rightarrow> ident set \<Rightarrow> word_map \<Rightarrow> ident set \<times> word_map" where
  "search_words db [] found m = (found, m)"
| "search_words db (word # words) found m =
     (case lookup_names (iterkeys db word) found m of
        (found', m') \<Rightarrow> search_words db words found' m')"

definition on_type :: "state \<Rightarrow> state" where
  "on_type st =
     (let text = search_var st;
          words = split text
      in if words = [] then refresh_cback None st
         else
           (case search_words (database st) words {} (word_to_ids st) of
              (found, m) \<Rightarrow>
                let st1 = st\<lparr>word_to_ids := m\<rparr>;
                    selected = selection st1;
                    st2 = refresh_cback (Some found) st1
                in (case selected of
                      Some (start, stop) \<Rightarrow> st2\<lparr>selection := Some (start, stop)\<rparr>
                    | None \<Rightarrow> st2)))"

text \<open>
  \<^verbatim>\<open>init\<close>: a fresh, empty \<^verbatim>\<open>search_var\<close> and \<^verbatim>\<open>searchbar\<close>, and \<^verbatim>\<open>on_type\<close> stored in
  \<^verbatim>\<open>_type_cback\<close>.
\<close>

definition init :: "state \<Rightarrow> state" where
  "init st = st\<lparr>search_var := [], selection := None, type_cback := Some On_type\<rparr>"

text \<open>
  \<^verbatim>\<open>search_var.trace_add('write', on_type)\<close>: writing the variable, which typing in the
  search bar does, runs \<^verbatim>\<open>on_type\<close>.
\<close>

definition type_text :: "string \<Rightarrow> state \<Rightarrow> state" where
  "type_text text st = on_type (st\<lparr>search_var := text\<rparr>)"

text \<open>What \<^verbatim>\<open>refresh_cback\<close> receives when the text of the search bar becomes \<open>text\<close>.\<close>

definition evaluate :: "state \<Rightarrow> string \<Rightarrow> ident set option" where
  "evaluate st text = last (refreshed (type_text text st))"

subsection \<open>\<^verbatim>\<open>rebuild_database\<close>\<close>

text \<open>\<^verbatim>\<open>for word in tag.split(): word_to_ids[word.casefold()].add((item.id, subtype_ind))\<close>\<close>

fun add_words :: "string list \<Rightarrow> ident \<Rightarrow> word_map \<Rightarrow> word_map" where
  "add_words [] i m = m"
| "add_words (word # words) i m = add_words words i (add_ident m (casefold word) i)"

text \<open>\<^verbatim>\<open>for tag in item.get_tags(subtype_ind)\<close>\<close>

fun add_tags :: "string list \<Rightarrow> ident \<Rightarrow> word_map \<Rightarrow> word_map" where
  "add_tags [] i m = m"
| "add_tags (tag # tags) i m = add_tags tags i (add_words (split tag) i m)"

text \<open>
  \<^verbatim>\<open>for subtype_ind in item.visual_subtypes\<close>; an exception of \<^verbatim>\<open>get_tags\<close> leaves the
  loop with the dictionary as it is by then, the words of the tags yielded before it
  included.
\<close>

fun add_subtypes :: "item \<Rightarrow> int list \<Rightarrow> word_map \<Rightarrow> error option \<times> word_map" where
  "add_subtypes it [] m = (None, m)"
| "add_subtypes it (subtype_ind # rest) m =
     (case get_tags it subtype_ind of
        (tags, Some e) \<Rightarrow> (Some e, add_tags tags (item_id it, subtype_ind) m)
      | (tags, None) \<Rightarrow> add_subtypes it rest (add_tags tags (item_id it, subtype_ind) m))"

text \<open>\<^verbatim>\<open>for item in UI.item_list.values()\<close>\<close>

fun add_items :: "item list \<Rightarrow> word_map \<Rightarrow> error option \<times> word_map" where
  "add_items [] m = (None, m)"
| "add_items (it # items) m =
     (case add_subtypes it (visual_subtypes it) m of
        (Some e, m') \<Rightarrow> (Some e, m')
      | (None, m') \<Rightarrow> add_items items m')"

text \<open>\<^verbatim>\<open>_type_cback()\<close>: calling \<^verbatim>\<open>None\<close> raises \<^verbatim>\<open>TypeError\<close>.\<close>

definition call_type_cback :: "state \<Rightarrow> (error + unit) \<times> state" where
  "call_type_cback st =
     (case type_cback st of
        None \<Rightarrow> (Inl TypeError, st)
      | Some On_type \<Rightarrow> (Inr (), on_type st))"

text \<open>
  \<^verbatim>\<open>rebuild_database\<close>, with \<^verbatim>\<open>UI.item_list.values()\<close> as the argument \<open>item_list\<close>:
  clear the dictionary, fill it, build the trie from its keys, call the callback.
\<close>

definition rebuild_database :: "item list \<Rightarrow> state \<Rightarrow> (error + unit) \<times> state" where
  "rebuild_database item_list st =
     (let st1 = st\<lparr>word_to_ids := []\<rparr>
      in case add_items item_list (word_to_ids st1) of
           (Some e, m) \<Rightarrow> (Inl e, st1\<lparr>word_to_ids := m\<rparr>)
         | (None, m) \<Rightarrow>
             call_type_cback (st1\<lparr>word_to_ids := m, database := Trie (map fst m)\<rparr>))"

subsection \<open>Notions used in the statements\<close>

text \<open>The set that \<^verbatim>\<open>word_to_ids[k]\<close> evaluates to.\<close>

definition entries_for :: "word_map \<Rightarrow> string \<Rightarrow> ident set" where
  "entries_for m k = fst (getitem m k)"

text \<open>
  Subtype \<open>v\<close> of an item yields a tag one of whose words, case-folded, is \<open>w\<close>.
\<close>

definition has_word :: "item \<Rightarrow> int \<Rightarrow> string \<Rightarrow> bool" where
  "has_word it v w = (w \<in> set (map casefold (concat (map split (fst (get_tags it v))))))"

text \<open>Reading the subtypes \<open>vs\<close> of an item, or a whole catalogue, raises nothing.\<close>

definition yields_all :: "item \<Rightarrow> int list \<Rightarrow> bool" where
  "yields_all it vs = list_all (\<lambda>v. snd (get_tags it v) = None) vs"

definition reads_ok :: "item list \<Rightarrow> bool" where
  "reads_ok items = list_all (\<lambda>it. yields_all it (visual_subtypes it)) items"

text \<open>A dictionary has one pair per key, and no key with an empty set.\<close>

definition proper :: "word_map \<Rightarrow> bool" where
  "proper m = (distinct (map fst m) \<and> {} \<notin> entries_for m ` fst ` set m)"

subsection \<open>Example catalogues\<close>

text \<open>
  Items \<open>A\<close>, \<open>B\<close>, \<open>C\<close> with one subtype each, tagged \<^verbatim>\<open>red door\<close>, \<^verbatim>\<open>blue door\<close> and
  \<^verbatim>\<open>red wall\<close>; an item \<open>V\<close> with two subtypes, the first tagged \<^verbatim>\<open>special\<close> and the
  second \<^verbatim>\<open>plain\<close>; an item \<open>W\<close> with two subtypes, tagged \<^verbatim>\<open>special\<close> and
  \<^verbatim>\<open>specialist\<close>; an item \<open>X\<close> with three subtypes, whose \<^verbatim>\<open>get_tags\<close> yields
  \<^verbatim>\<open>grey box\<close> for the first and, for the second, yields \<^verbatim>\<open>dark\<close> and then raises.
\<close>

definition item_A :: item where
  "item_A = \<lparr>item_id = ''A'', visual_subtypes = [0],
              get_tags = (\<lambda>subtype. ([''red door''], None))\<rparr>"

definition item_B :: item where
  "item_B = \<lparr>item_id = ''B'', visual_subtypes = [0],
              get_tags = (\<lambda>subtype. ([''blue door''], None))\<rparr>"

definition item_C :: item where
  "item_C = \<lparr>item_id = ''C'', visual_subtypes = [0],
              get_tags = (\<lambda>subtype. ([''red wall''], None))\<rparr>"

definition item_V :: item where
  "item_V = \<lparr>item_id = ''V'', visual_subtypes = [0, 1],
              get_tags = (\<lambda>subtype. if subtype = 0 then ([''special''], None)
                                   else ([''plain''], None))\<rparr>"

definition item_W :: item where
  "item_W = \<lparr>item_id = ''W'', visual_subtypes = [0, 1],
              get_tags = (\<lambda>subtype. if subtype = 0 then ([''special''], None)
                                   else ([''specialist''], None))\<rparr>"

definition item_X :: item where
  "item_X = \<lparr>item_id = ''X'', visual_subtypes = [0, 1, 2],
              get_tags = (\<lambda>subtype. if subtype = 0 then ([''grey box''], None)
                                   else if subtype = 1 then ([''dark''], Some CatalogError)
                                   else ([''late''], None))\<rparr>"

definition catalog_ABC :: "item list" where
  "catalog_ABC = [item_A, item_B, item_C]"

definition catalog_AXB :: "item list" where
  "catalog_AXB = [item_A, item_X, item_B]"

definition catalog_BC :: "item list" where
  "catalog_BC = [item_B, item_C]"



definition indexed_ABC :: state where
  "indexed_ABC = snd (rebuild_database catalog_ABC (init initial))"

definition typed_red :: state where
  "typed_red = type_text ''red'' indexed_ABC"

text \<open>The index of \<open>A\<close>, \<open>B\<close>, \<open>C\<close> after a rebuild that the second subtype of \<open>X\<close> aborts.\<close>

definition aborted :: state where
  "aborted = snd (rebuild_database catalog_AXB indexed_ABC)"


section \<open>Properties\<close>

subsection \<open>Splitting\<close>

lemma split_Nil_iff: "split s = [] \<longleftrightarrow> set s \<subseteq> Collect isspace"
proof (cases "dropWhile isspace s")
  case Nil
  have "split s = []" by (subst split.simps) (simp only: Nil list.case)
  moreover have "set s \<subseteq> Collect isspace" using Nil by (auto simp: dropWhile_eq_Nil_conv)
  ultimately show ?thesis by simp
next
  case (Cons c cs)
  have "split s \<noteq> []" by (subst split.simps) (simp only: Cons list.case, simp)
  moreover have "\<not> set s \<subseteq> Collect isspace"
    using Cons dropWhile_eq_Nil_conv [of isspace s] by auto
  ultimately show ?thesis by simp
qed

subsection \<open>Lookups in the dictionary\<close>

lemma entries_for_map_of:
  "entries_for m k = (case map_of m k of None \<Rightarrow> {} | Some s \<Rightarrow> s)"
  by (simp add: entries_for_def getitem_def split: option.splits)

lemma getitem_fst: "fst (getitem m k) = entries_for m k"
  by (simp add: entries_for_def)

lemma getitem_entries: "entries_for (snd (getitem m k)) k' = entries_for m k'"
  by (simp add: entries_for_map_of getitem_def update_conv' split: option.splits)

lemma map_of_Some_key: "map_of m k = Some s \<Longrightarrow> k \<in> fst ` set m"
  by (metis map_of_eq_None_iff option.distinct(1))

lemma getitem_keys: "fst ` set (snd (getitem m k)) = insert k (fst ` set m)"
  by (auto simp: getitem_def dom_update split: option.splits dest: map_of_Some_key)

lemma getitem_present: "k \<in> fst ` set m \<Longrightarrow> snd (getitem m k) = m"
  by (cases "map_of m k") (simp_all add: getitem_def map_of_eq_None_iff)

lemma add_ident_entries:
  "entries_for (add_ident m k i) k' =
     (if k' = k then insert i (entries_for m k) else entries_for m k')"
  by (simp add: entries_for_map_of add_ident_def getitem_def update_conv' split: option.splits)

lemma add_ident_keys: "fst ` set (add_ident m k i) = insert k (fst ` set m)"
  by (auto simp: add_ident_def getitem_def dom_update split: option.splits dest: map_of_Some_key)

lemma add_ident_distinct: "distinct (map fst m) \<Longrightarrow> distinct (map fst (add_ident m k i))"
  by (simp add: add_ident_def getitem_def distinct_update split: option.splits)

subsection \<open>The loops of \<^verbatim>\<open>on_type\<close>\<close>

lemma lookup_names_found:
  "fst (lookup_names names found m) = found \<union> (\<Union>name\<in>set names. entries_for m name)"
proof (induction names arbitrary: found m)
  case Nil
  show ?case by simp
next
  case (Cons name names)
  obtain s m' where g: "getitem m name = (s, m')" by (cases "getitem m name")
  have s: "s = entries_for m name" using g getitem_fst [of m name] by simp
  have m': "\<And>k. entries_for m' k = entries_for m k" using g getitem_entries [of m name] by simp
  show ?case using Cons.IH [of "found \<union> s" m'] by (auto simp: g s m')
qed

lemma lookup_names_entries:
  "entries_for (snd (lookup_names names found m)) k = entries_for m k"
proof (induction names arbitrary: found m)
  case Nil
  show ?case by simp
next
  case (Cons name names)
  obtain s m' where g: "getitem m name = (s, m')" by (cases "getitem m name")
  have "entries_for m' k = entries_for m k" using g getitem_entries [of m name k] by simp
  then show ?case using Cons.IH [of "found \<union> s" m'] by (simp add: g)
qed

lemma lookup_names_frame:
  "set names \<subseteq> fst ` set m \<Longrightarrow> snd (lookup_names names found m) = m"
proof (induction names arbitrary: found)
  case Nil
  show ?case by simp
next
  case (Cons name names)
  then have "name \<in> fst ` set m" by simp
  then have "getitem m name = (entries_for m name, m)"
    using getitem_present [of name m] getitem_fst [of m name] by (simp add: prod_eq_iff)
  then show ?case using Cons by simp
qed

lemma search_words_found:
  "fst (search_words db words found m) =
     found \<union> (\<Union>word\<in>set words. \<Union>name\<in>set (iterkeys db word). entries_for m name)"
proof (induction words arbitrary: found m)
  case Nil
  show ?case by simp
next
  case (Cons word words)
  obtain f' m' where l: "lookup_names (iterkeys db word) found m = (f', m')"
    by (cases "lookup_names (iterkeys db word) found m")
  have f': "f' = found \<union> (\<Union>name\<in>set (iterkeys db word). entries_for m name)"
    using l lookup_names_found [of "iterkeys db word" found m] by simp
  have m': "\<And>k. entries_for m' k = entries_for m k"
    using l lookup_names_entries [of "iterkeys db word" found m] by simp
  show ?case using Cons.IH [of f' m'] by (auto simp: l f' m')
qed

lemma iterkeys_subset: "set (iterkeys db p) \<subseteq> set (keys db)"
  by (auto simp: iterkeys_def)

lemma search_words_frame:
  assumes "set (keys db) \<subseteq> fst ` set m"
  shows "snd (search_words db words found m) = m"
proof (induction words arbitrary: found)
  case Nil
  show ?case by simp
next
  case (Cons word words)
  have "set (iterkeys db word) \<subseteq> fst ` set m"
    using assms iterkeys_subset [of db word] by blast
  then have "snd (lookup_names (iterkeys db word) found m) = m"
    by (rule lookup_names_frame)
  then obtain f' where "lookup_names (iterkeys db word) found m = (f', m)"
    by (cases "lookup_names (iterkeys db word) found m") simp
  then show ?case using Cons.IH [of f'] by simp
qed

lemma on_type_refreshed:
  "refreshed (on_type st) = refreshed st @
     [if split (search_var st) = [] then None
      else Some (\<Union>word\<in>set (split (search_var st)).
                 \<Union>name\<in>set (iterkeys (database st) word). entries_for (word_to_ids st) name)]"
proof -
  obtain found m where sw: "search_words (database st) (split (search_var st)) {} (word_to_ids st) = (found, m)"
    by (cases "search_words (database st) (split (search_var st)) {} (word_to_ids st)")
  have "found = (\<Union>word\<in>set (split (search_var st)).
                 \<Union>name\<in>set (iterkeys (database st) word). entries_for (word_to_ids st) name)"
    using search_words_found [of "database st" "split (search_var st)" "{}" "word_to_ids st"]
    by (simp add: sw)
  then show ?thesis
    by (simp add: on_type_def refresh_cback_def Let_def sw split: option.splits)
qed

lemma on_type_globals:
  "database (on_type st) = database st" "type_cback (on_type st) = type_cback st"
  "search_var (on_type st) = search_var st"
  by (simp_all add: on_type_def refresh_cback_def Let_def split: prod.splits option.splits)

lemma on_type_word_to_ids:
  "set (keys (database st)) \<subseteq> fst ` set (word_to_ids st) \<Longrightarrow> word_to_ids (on_type st) = word_to_ids st"
proof -
  assume "set (keys (database st)) \<subseteq> fst ` set (word_to_ids st)"
  then have "snd (search_words (database st) (split (search_var st)) {} (word_to_ids st)) = word_to_ids st"
    by (rule search_words_frame)
  then show ?thesis
    by (cases "search_words (database st) (split (search_var st)) {} (word_to_ids st)")
       (simp add: on_type_def refresh_cback_def Let_def split: option.splits)
qed

lemma search_words_entries:
  "entries_for (snd (search_words db words found m)) k = entries_for m k"
proof (induction words arbitrary: found m)
  case Nil
  show ?case by simp
next
  case (Cons word words)
  obtain f' m' where l: "lookup_names (iterkeys db word) found m = (f', m')"
    by (cases "lookup_names (iterkeys db word) found m")
  have "entries_for m' k = entries_for m k"
    using l lookup_names_entries [of "iterkeys db word" found m k] by simp
  then show ?case using Cons.IH [of f' m'] by (simp add: l)
qed

lemma on_type_entries:
  "entries_for (word_to_ids (on_type st)) k = entries_for (word_to_ids st) k"
  using search_words_entries [of "database st" "split (search_var st)" "{}" "word_to_ids st" k]
  by (cases "search_words (database st) (split (search_var st)) {} (word_to_ids st)")
     (simp add: on_type_def refresh_cback_def Let_def split: option.splits)

lemma evaluate_eq:
  "evaluate st text =
     (if split text = [] then None
      else Some (\<Union>word\<in>set (split text).
                 \<Union>name\<in>set (iterkeys (database st) word). entries_for (word_to_ids st) name))"
  by (simp add: evaluate_def type_text_def on_type_refreshed)

subsection \<open>Filling the dictionary\<close>

lemma add_words_entries:
  "entries_for (add_words ws i m) k =
     entries_for m k \<union> (if k \<in> casefold ` set ws then {i} else {})"
  by (induction ws arbitrary: m) (auto simp: add_ident_entries)

lemma add_tags_entries:
  "entries_for (add_tags tags i m) k =
     entries_for m k \<union> (if k \<in> set (map casefold (concat (map split tags))) then {i} else {})"
  by (induction tags arbitrary: m) (auto simp: add_words_entries)

lemma add_subtypes_entries:
  "add_subtypes it vs m = (None, m') \<Longrightarrow>
   entries_for m' k = entries_for m k \<union> {(item_id it, v) | v. v \<in> set vs \<and> has_word it v k}"
proof (induction vs arbitrary: m)
  case Nil
  then show ?case by simp
next
  case (Cons v vs)
  from Cons.prems obtain tags where t: "get_tags it v = (tags, None)"
    and r: "add_subtypes it vs (add_tags tags (item_id it, v) m) = (None, m')"
    by (auto split: prod.splits option.splits)
  have "entries_for m' k =
      entries_for (add_tags tags (item_id it, v) m) k \<union> {(item_id it, v) | v. v \<in> set vs \<and> has_word it v k}"
    by (rule Cons.IH [OF r])
  moreover have "has_word it v k \<longleftrightarrow> k \<in> set (map casefold (concat (map split tags)))"
    by (simp add: has_word_def t)
  moreover have "{(item_id it, v') | v'. v' \<in> set (v # vs) \<and> has_word it v' k} =
      (if has_word it v k then {(item_id it, v)} else {}) \<union>
      {(item_id it, v') | v'. v' \<in> set vs \<and> has_word it v' k}"
    by auto
  ultimately show ?case
    by (simp only: add_tags_entries Un_assoc)
qed

lemma add_items_entries:
  "add_items items m = (None, m') \<Longrightarrow>
   entries_for m' k = entries_for m k \<union>
     {(item_id it, v) | it v. it \<in> set items \<and> v \<in> set (visual_subtypes it) \<and> has_word it v k}"
proof (induction items arbitrary: m)
  case Nil
  then show ?case by simp
next
  case (Cons it items)
  from Cons.prems obtain m1 where s: "add_subtypes it (visual_subtypes it) m = (None, m1)"
    and r: "add_items items m1 = (None, m')"
    by (auto split: prod.splits option.splits)
  have "entries_for m' k = entries_for m1 k \<union>
     {(item_id it, v) | it v. it \<in> set items \<and> v \<in> set (visual_subtypes it) \<and> has_word it v k}"
    by (rule Cons.IH [OF r])
  moreover have "entries_for m1 k = entries_for m k \<union>
     {(item_id it, v) | v. v \<in> set (visual_subtypes it) \<and> has_word it v k}"
    by (rule add_subtypes_entries [OF s])
  ultimately show ?case by auto
qed

lemma proper_Nil: "proper []"
  by (simp add: proper_def)

lemma proper_add_ident: "proper m \<Longrightarrow> proper (add_ident m k i)"
  by (auto simp: proper_def add_ident_distinct add_ident_keys add_ident_entries)

lemma proper_add_words: "proper m \<Longrightarrow> proper (add_words ws i m)"
  by (induction ws arbitrary: m) (simp_all add: proper_add_ident)

lemma proper_add_tags: "proper m \<Longrightarrow> proper (add_tags tags i m)"
  by (induction tags arbitrary: m) (simp_all add: proper_add_words)

lemma proper_add_subtypes: "proper m \<Longrightarrow> proper (snd (add_subtypes it vs m))"
  by (induction vs arbitrary: m) (simp_all add: proper_add_tags split: prod.splits option.splits)

lemma proper_add_items: "proper m \<Longrightarrow> proper (snd (add_items items m))"
proof (induction items arbitrary: m)
  case Nil
  then show ?case by simp
next
  case (Cons it items)
  obtain r m1 where s: "add_subtypes it (visual_subtypes it) m = (r, m1)"
    by (cases "add_subtypes it (visual_subtypes it) m")
  have "proper m1" using proper_add_subtypes [OF Cons.prems, of it "visual_subtypes it"] s by simp
  then show ?case using Cons.IH [of m1] by (cases r) (simp_all add: s)
qed

subsection \<open>A rebuild that completes\<close>

lemma rebuild_database_ok:
  assumes "rebuild_database item_list st = (Inr (), st')"
  obtains m where "add_items item_list [] = (None, m)"
    and "type_cback st = Some On_type"
    and "st' = on_type (st\<lparr>word_to_ids := m, database := Trie (map fst m)\<rparr>)"
    and "database st' = Trie (map fst m)" and "word_to_ids st' = m"
proof -
  obtain r m where a: "add_items item_list [] = (r, m)"
    by (cases "add_items item_list []")
  have r: "r = None" using assms a
    by (cases r) (simp_all add: rebuild_database_def)
  have c: "type_cback st = Some On_type"
    using assms a r
    by (cases "type_cback st") (auto simp: rebuild_database_def call_type_cback_def split: callback.splits)
  have s: "st' = on_type (st\<lparr>word_to_ids := m, database := Trie (map fst m)\<rparr>)"
    using assms a r c by (simp add: rebuild_database_def call_type_cback_def)
  have d: "database st' = Trie (map fst m)"
    by (simp add: s on_type_globals)
  have w: "word_to_ids st' = m"
    unfolding s by (rule trans [OF on_type_word_to_ids]) simp_all
  show ?thesis using that a r c s d w by simp
qed

lemma rebuild_database_succeeds:
  assumes "fst (add_items item_list []) = None" and "type_cback st = Some On_type"
  shows "fst (rebuild_database item_list st) = Inr ()"
  using assms
  by (cases "add_items item_list []") (simp add: rebuild_database_def call_type_cback_def)

lemma entries_for_Nil: "entries_for [] k = {}"
  by (simp add: entries_for_map_of)

lemma entries_for_absent: "k \<notin> fst ` set m \<Longrightarrow> entries_for m k = {}"
  by (simp add: entries_for_map_of map_of_eq_None_iff [THEN iffD2])

text \<open>The answer of a rebuilt index, in terms of the catalogue.\<close>

lemma evaluate_rebuilt:
  assumes r: "rebuild_database item_list st = (Inr (), st')" and t: "split text \<noteq> []"
  shows "evaluate st' text =
     Some {(item_id it, v) | it v tok word.
             it \<in> set item_list \<and> v \<in> set (visual_subtypes it) \<and>
             tok \<in> set (split text) \<and> has_word it v word \<and> prefix tok word}"
proof -
  from r obtain m where a: "add_items item_list [] = (None, m)"
    and d: "database st' = Trie (map fst m)" and w: "word_to_ids st' = m"
    by (rule rebuild_database_ok)
  have e: "\<And>k. entries_for m k =
      {(item_id it, v) | it v. it \<in> set item_list \<and> v \<in> set (visual_subtypes it) \<and> has_word it v k}"
    using add_items_entries [OF a] by (simp add: entries_for_Nil)
  have "(\<Union>tok\<in>set (split text). \<Union>word\<in>set (iterkeys (database st') tok). entries_for m word) =
     {(item_id it, v) | it v tok word.
             it \<in> set item_list \<and> v \<in> set (visual_subtypes it) \<and>
             tok \<in> set (split text) \<and> has_word it v word \<and> prefix tok word}"
    (is "?L = ?R")
  proof (rule set_eqI)
    fix i
    have "i \<in> ?L \<longleftrightarrow> (\<exists>tok\<in>set (split text). \<exists>word. word \<in> fst ` set m \<and> prefix tok word \<and> i \<in> entries_for m word)"
      by (auto simp: d iterkeys_def)
    also have "\<dots> \<longleftrightarrow> (\<exists>tok\<in>set (split text). \<exists>word. prefix tok word \<and> i \<in> entries_for m word)"
      using entries_for_absent [of _ m] by blast
    also have "\<dots> \<longleftrightarrow> i \<in> ?R"
      unfolding e by blast
    finally show "i \<in> ?L \<longleftrightarrow> i \<in> ?R" .
  qed
  then show ?thesis using t by (simp add: evaluate_eq w)
qed

lemma rebuild_database_refreshed:
  assumes r: "rebuild_database item_list st = (Inr (), st')"
  shows "search_var st' = search_var st" and "type_cback st' = type_cback st"
    and "refreshed st' = refreshed st @ [evaluate st' (search_var st)]"
proof -
  from r obtain m where s: "st' = on_type (st\<lparr>word_to_ids := m, database := Trie (map fst m)\<rparr>)"
    and d: "database st' = Trie (map fst m)" and w: "word_to_ids st' = m"
    by (rule rebuild_database_ok)
  show "search_var st' = search_var st" by (simp add: s on_type_globals)
  show "type_cback st' = type_cback st" by (simp add: s on_type_globals)
  show "refreshed st' = refreshed st @ [evaluate st' (search_var st)]"
    unfolding evaluate_eq d w by (simp add: s on_type_refreshed)
qed

lemma rebuild_database_consistent:
  assumes r: "rebuild_database item_list st = (Inr (), st')"
  shows "database st' = Trie (map fst (word_to_ids st'))" and "proper (word_to_ids st')"
proof -
  from r obtain m where a: "add_items item_list [] = (None, m)"
    and d: "database st' = Trie (map fst m)" and w: "word_to_ids st' = m"
    by (rule rebuild_database_ok)
  show "database st' = Trie (map fst (word_to_ids st'))" by (simp add: d w)
  show "proper (word_to_ids st')"
    using proper_add_items [OF proper_Nil, of item_list] by (simp add: a w)
qed

text \<open>Typing keeps an index whose trie holds the keys of the dictionary.\<close>

lemma type_text_consistent:
  assumes "database st = Trie (map fst (word_to_ids st))"
  shows "database (type_text text st) = database st"
    and "word_to_ids (type_text text st) = word_to_ids st"
proof -
  show "database (type_text text st) = database st"
    by (simp add: type_text_def on_type_globals)
  have "set (keys (database (st\<lparr>search_var := text\<rparr>))) \<subseteq> fst ` set (word_to_ids (st\<lparr>search_var := text\<rparr>))"
    by (simp add: assms)
  then have "word_to_ids (on_type (st\<lparr>search_var := text\<rparr>)) = word_to_ids (st\<lparr>search_var := text\<rparr>)"
    by (rule on_type_word_to_ids)
  then show "word_to_ids (type_text text st) = word_to_ids st"
    by (simp add: type_text_def)
qed

lemma fold_type_text_consistent:
  assumes "database st = Trie (map fst (word_to_ids st))"
  shows "database (fold type_text texts st) = database st \<and>
         word_to_ids (fold type_text texts st) = word_to_ids st"
  using assms
proof (induction texts arbitrary: st)
  case Nil
  show ?case by simp
next
  case (Cons t ts)
  have d: "database (type_text t st) = database st"
    and w: "word_to_ids (type_text t st) = word_to_ids st"
    using type_text_consistent [OF Cons.prems] by simp_all
  have "database (type_text t st) = Trie (map fst (word_to_ids (type_text t st)))"
    using Cons.prems by (simp add: d w)
  from Cons.IH [OF this] show ?case by (simp add: d w)
qed

lemma evaluate_fold_type_text:
  assumes "database st = Trie (map fst (word_to_ids st))"
  shows "evaluate (fold type_text texts st) text = evaluate st text"
  using fold_type_text_consistent [OF assms, of texts] by (simp add: evaluate_eq)

subsection \<open>A rebuild that reading the catalogue aborts\<close>

lemma add_subtypes_None_iff: "fst (add_subtypes it vs m) = None \<longleftrightarrow> yields_all it vs"
  by (induction vs arbitrary: m) (auto simp: yields_all_def split: prod.splits option.splits)

lemma add_items_None_iff: "fst (add_items items m) = None \<longleftrightarrow> reads_ok items"
proof (induction items arbitrary: m)
  case Nil
  show ?case by (simp add: reads_ok_def)
next
  case (Cons it items)
  obtain r m1 where s: "add_subtypes it (visual_subtypes it) m = (r, m1)"
    by (cases "add_subtypes it (visual_subtypes it) m")
  have y: "r = None \<longleftrightarrow> yields_all it (visual_subtypes it)"
    using add_subtypes_None_iff [of it "visual_subtypes it" m] by (simp add: s)
  show ?case
  proof (cases r)
    case None
    then show ?thesis using Cons.IH [of m1] y by (simp add: s reads_ok_def)
  next
    case (Some e)
    then show ?thesis using y by (simp add: s reads_ok_def)
  qed
qed

lemma add_subtypes_error_source:
  "fst (add_subtypes it vs m) = Some e \<Longrightarrow> \<exists>v\<in>set vs. snd (get_tags it v) = Some e"
  by (induction vs arbitrary: m) (auto split: prod.splits option.splits)

lemma add_items_error_source:
  "fst (add_items items m) = Some e \<Longrightarrow>
   \<exists>it\<in>set items. \<exists>v\<in>set (visual_subtypes it). snd (get_tags it v) = Some e"
proof (induction items arbitrary: m)
  case Nil
  then show ?case by simp
next
  case (Cons it items)
  obtain r m1 where s: "add_subtypes it (visual_subtypes it) m = (r, m1)"
    by (cases "add_subtypes it (visual_subtypes it) m")
  show ?case
  proof (cases r)
    case None
    then have "fst (add_items items m1) = Some e" using Cons.prems by (simp add: s)
    from Cons.IH [OF this] show ?thesis by auto
  next
    case (Some e')
    then have "fst (add_subtypes it (visual_subtypes it) m) = Some e"
      using Cons.prems by (simp add: s)
    from add_subtypes_error_source [OF this] show ?thesis by auto
  qed
qed

text \<open>The dictionary when the iteration raises.\<close>

lemma add_subtypes_raises:
  assumes "yields_all it vs" and "get_tags it v = (tags, Some e)"
  shows "\<exists>m'. add_subtypes it (vs @ v # vs') m = (Some e, m') \<and>
     (\<forall>k. entries_for m' k =
        entries_for m k \<union> {(item_id it, u) | u. u \<in> set (vs @ [v]) \<and> has_word it u k})"
  using assms(1)
proof (induction vs arbitrary: m)
  case Nil
  have "has_word it v k \<longleftrightarrow> k \<in> set (map casefold (concat (map split tags)))" for k
    by (simp add: has_word_def assms(2))
  then have "entries_for (add_tags tags (item_id it, v) m) k =
      entries_for m k \<union> {(item_id it, u) | u. u \<in> set ([] @ [v]) \<and> has_word it u k}" for k
    by (auto simp: add_tags_entries)
  then show ?case by (simp add: assms(2))
next
  case (Cons w ws)
  from Cons.prems obtain tags' where t: "get_tags it w = (tags', None)"
    and y: "yields_all it ws"
    by (cases "get_tags it w") (auto simp: yields_all_def)
  let ?m1 = "add_tags tags' (item_id it, w) m"
  from Cons.IH [OF y, of ?m1] obtain m' where
    r: "add_subtypes it (ws @ v # vs') ?m1 = (Some e, m')"
    and e: "\<And>k. entries_for m' k =
        entries_for ?m1 k \<union> {(item_id it, u) | u. u \<in> set (ws @ [v]) \<and> has_word it u k}"
    by blast
  have h: "has_word it w k \<longleftrightarrow> k \<in> set (map casefold (concat (map split tags')))" for k
    by (simp add: has_word_def t)
  have "entries_for m' k =
        entries_for m k \<union> {(item_id it, u) | u. u \<in> set ((w # ws) @ [v]) \<and> has_word it u k}" for k
    unfolding e add_tags_entries using h [of k] by auto
  then show ?case using r by (simp add: t)
qed

lemma add_items_raises:
  assumes "reads_ok before" and "yields_all it vs" and "visual_subtypes it = vs @ v # vs'"
    and "get_tags it v = (tags, Some e)"
  shows "\<exists>m'. add_items (before @ it # rest) m = (Some e, m') \<and>
     (\<forall>k. entries_for m' k =
        entries_for m k \<union>
        {(item_id b, u) | b u. b \<in> set before \<and> u \<in> set (visual_subtypes b) \<and> has_word b u k} \<union>
        {(item_id it, u) | u. u \<in> set (vs @ [v]) \<and> has_word it u k})"
  using assms(1)
proof (induction before arbitrary: m)
  case Nil
  from add_subtypes_raises [OF assms(2) assms(4), of vs' m]
  show ?case by (auto simp: assms(3))
next
  case (Cons b bs)
  from Cons.prems have yb: "yields_all b (visual_subtypes b)" and ok: "reads_ok bs"
    by (simp_all add: reads_ok_def)
  obtain r m1 where s: "add_subtypes b (visual_subtypes b) m = (r, m1)"
    by (cases "add_subtypes b (visual_subtypes b) m")
  have "r = None"
    using add_subtypes_None_iff [of b "visual_subtypes b" m] yb by (simp add: s)
  then have s': "add_subtypes b (visual_subtypes b) m = (None, m1)" using s by simp
  have e1: "\<And>k. entries_for m1 k =
      entries_for m k \<union> {(item_id b, u) | u. u \<in> set (visual_subtypes b) \<and> has_word b u k}"
    by (rule add_subtypes_entries [OF s'])
  from Cons.IH [OF ok, of m1] obtain m' where
    r: "add_items (bs @ it # rest) m1 = (Some e, m')"
    and e: "\<And>k. entries_for m' k =
        entries_for m1 k \<union>
        {(item_id b, u) | b u. b \<in> set bs \<and> u \<in> set (visual_subtypes b) \<and> has_word b u k} \<union>
        {(item_id it, u) | u. u \<in> set (vs @ [v]) \<and> has_word it u k}"
    by blast
  have "entries_for m' k =
        entries_for m k \<union>
        {(item_id b', u) | b' u. b' \<in> set (b # bs) \<and> u \<in> set (visual_subtypes b') \<and> has_word b' u k} \<union>
        {(item_id it, u) | u. u \<in> set (vs @ [v]) \<and> has_word it u k}" for k
    unfolding e e1 by auto
  then show ?case using r by (simp add: s')
qed

lemma proper_keys: "proper m \<Longrightarrow> fst ` set m = {k. entries_for m k \<noteq> {}}"
  using entries_for_absent [of _ m] by (auto simp: proper_def)

text \<open>Every catalogue whose reading raises has a first subtype whose tags raise.\<close>

lemma reads_ok_first_error:
  assumes "\<not> reads_ok items"
  shows "\<exists>before it rest vs v vs' tags e.
     items = before @ it # rest \<and> reads_ok before \<and>
     visual_subtypes it = vs @ v # vs' \<and> yields_all it vs \<and> get_tags it v = (tags, Some e)"
proof -
  from assms have "\<exists>it\<in>set items. \<not> yields_all it (visual_subtypes it)"
    by (auto simp: reads_ok_def list_all_iff)
  then have "\<exists>ys x zs. items = ys @ x # zs \<and> \<not> yields_all x (visual_subtypes x) \<and>
      (\<forall>y\<in>set ys. \<not> \<not> yields_all y (visual_subtypes y))"
    by (rule split_list_first_prop)
  then obtain before it rest where i: "items = before @ it # rest"
    and n: "\<not> yields_all it (visual_subtypes it)"
    and b: "\<forall>b\<in>set before. \<not> \<not> yields_all b (visual_subtypes b)"
    by blast
  from n have "\<exists>v\<in>set (visual_subtypes it). snd (get_tags it v) \<noteq> None"
    by (auto simp: yields_all_def list_all_iff)
  then have "\<exists>ys x zs. visual_subtypes it = ys @ x # zs \<and> snd (get_tags it x) \<noteq> None \<and>
      (\<forall>y\<in>set ys. \<not> snd (get_tags it y) \<noteq> None)"
    by (rule split_list_first_prop)
  then obtain vs v vs' where v: "visual_subtypes it = vs @ v # vs'"
    and e: "snd (get_tags it v) \<noteq> None"
    and y: "\<forall>u\<in>set vs. \<not> snd (get_tags it u) \<noteq> None"
    by blast
  from e obtain tags e' where "get_tags it v = (tags, Some e')"
    by (cases "get_tags it v") auto
  moreover have "reads_ok before" using b by (simp add: reads_ok_def list_all_iff)
  moreover have "yields_all it vs" using y by (simp add: yields_all_def list_all_iff)
  ultimately show ?thesis using i v by blast
qed

subsection \<open>The example catalogues, evaluated\<close>

lemmas ex_defs = item_A_def item_B_def item_C_def item_V_def item_W_def item_X_def catalog_ABC_def
  split.simps isspace_def casefold_def casefold_char_def add_ident_def getitem_def

lemma add_items_ABC:
  "add_items catalog_ABC [] =
     (None, [(''red'', {(''A'', 0), (''C'', 0)}), (''door'', {(''A'', 0), (''B'', 0)}),
             (''blue'', {(''B'', 0)}), (''wall'', {(''C'', 0)})])"
  by (simp add: ex_defs insert_commute)

lemma rebuild_ABC:
  "rebuild_database catalog_ABC (init initial) =
     (Inr (),
      \<lparr>database = Trie [''red'', ''door'', ''blue'', ''wall''],
       word_to_ids = [(''red'', {(''A'', 0), (''C'', 0)}), (''door'', {(''A'', 0), (''B'', 0)}),
                      (''blue'', {(''B'', 0)}), (''wall'', {(''C'', 0)})],
       type_cback = Some On_type, search_var = [], selection = None, refreshed = [None]\<rparr>)"
  by (simp add: rebuild_database_def add_items_ABC call_type_cback_def init_def initial_def
      on_type_def refresh_cback_def split.simps)

lemma indexed_ABC_state:
  "indexed_ABC =
      \<lparr>database = Trie [''red'', ''door'', ''blue'', ''wall''],
       word_to_ids = [(''red'', {(''A'', 0), (''C'', 0)}), (''door'', {(''A'', 0), (''B'', 0)}),
                      (''blue'', {(''B'', 0)}), (''wall'', {(''C'', 0)})],
       type_cback = Some On_type, search_var = [], selection = None, refreshed = [None]\<rparr>"
  by (simp add: indexed_ABC_def rebuild_ABC)

lemma typed_red_state:
  "typed_red =
      \<lparr>database = Trie [''red'', ''door'', ''blue'', ''wall''],
       word_to_ids = [(''red'', {(''A'', 0), (''C'', 0)}), (''door'', {(''A'', 0), (''B'', 0)}),
                      (''blue'', {(''B'', 0)}), (''wall'', {(''C'', 0)})],
       type_cback = Some On_type, search_var = ''red'', selection = None,
       refreshed = [None, Some {(''A'', 0), (''C'', 0)}]\<rparr>"
  by (simp add: typed_red_def type_text_def indexed_ABC_state on_type_def refresh_cback_def
      iterkeys_def getitem_def split.simps isspace_def)

lemma add_items_BC:
  "add_items catalog_BC [] =
     (None, [(''blue'', {(''B'', 0)}), (''door'', {(''B'', 0)}),
             (''red'', {(''C'', 0)}), (''wall'', {(''C'', 0)})])"
  by (simp add: catalog_BC_def ex_defs)

lemma rebuild_BC:
  "rebuild_database catalog_BC typed_red =
     (Inr (),
      \<lparr>database = Trie [''blue'', ''door'', ''red'', ''wall''],
       word_to_ids = [(''blue'', {(''B'', 0)}), (''door'', {(''B'', 0)}),
                      (''red'', {(''C'', 0)}), (''wall'', {(''C'', 0)})],
       type_cback = Some On_type, search_var = ''red'', selection = None,
       refreshed = [None, Some {(''A'', 0), (''C'', 0)}, Some {(''C'', 0)}]\<rparr>)"
  by (simp add: rebuild_database_def add_items_BC call_type_cback_def typed_red_state
      on_type_def refresh_cback_def iterkeys_def getitem_def split.simps isspace_def)



lemma rebuild_ABC_typed_red:
  "rebuild_database catalog_ABC typed_red =
     (Inr (),
      \<lparr>database = Trie [''red'', ''door'', ''blue'', ''wall''],
       word_to_ids = [(''red'', {(''A'', 0), (''C'', 0)}), (''door'', {(''A'', 0), (''B'', 0)}),
                      (''blue'', {(''B'', 0)}), (''wall'', {(''C'', 0)})],
       type_cback = Some On_type, search_var = ''red'', selection = None,
       refreshed = [None, Some {(''A'', 0), (''C'', 0)}, Some {(''A'', 0), (''C'', 0)}]\<rparr>)"
  by (simp add: rebuild_database_def add_items_ABC call_type_cback_def typed_red_state
      on_type_def refresh_cback_def iterkeys_def getitem_def split.simps isspace_def)

lemma add_items_AXB:
  "add_items catalog_AXB [] =
     (Some CatalogError,
      [(''red'', {(''A'', 0)}), (''door'', {(''A'', 0)}), (''grey'', {(''X'', 0)}),
       (''box'', {(''X'', 0)}), (''dark'', {(''X'', 1)})])"
  by (simp add: catalog_AXB_def ex_defs)

lemma aborted_state:
  "aborted =
      \<lparr>database = Trie [''red'', ''door'', ''blue'', ''wall''],
       word_to_ids = [(''red'', {(''A'', 0)}), (''door'', {(''A'', 0)}), (''grey'', {(''X'', 0)}),
                      (''box'', {(''X'', 0)}), (''dark'', {(''X'', 1)})],
       type_cback = Some On_type, search_var = [], selection = None, refreshed = [None]\<rparr>"
  by (simp add: aborted_def rebuild_database_def add_items_AXB indexed_ABC_state)



lemma rebuild_ABC_initial:
  "rebuild_database catalog_ABC initial =
     (Inl TypeError,
      \<lparr>database = Trie [''red'', ''door'', ''blue'', ''wall''],
       word_to_ids = [(''red'', {(''A'', 0), (''C'', 0)}), (''door'', {(''A'', 0), (''B'', 0)}),
                      (''blue'', {(''B'', 0)}), (''wall'', {(''C'', 0)})],
       type_cback = None, search_var = [], selection = None, refreshed = []\<rparr>)"
  by (simp add: rebuild_database_def add_items_ABC call_type_cback_def initial_def)

lemma rebuild_AXB_initial:
  "rebuild_database catalog_AXB initial =
     (Inl CatalogError,
      \<lparr>database = Trie [],
       word_to_ids = [(''red'', {(''A'', 0)}), (''door'', {(''A'', 0)}), (''grey'', {(''X'', 0)}),
                      (''box'', {(''X'', 0)}), (''dark'', {(''X'', 1)})],
       type_cback = None, search_var = [], selection = None, refreshed = []\<rparr>)"
  by (simp add: rebuild_database_def add_items_AXB initial_def)

section \<open>The claims\<close>

text \<open>
  C1. The claim: evaluating a query is case-insensitive, so \<^verbatim>\<open>RED\<close> finds what \<^verbatim>\<open>red\<close>
  finds. \<^verbatim>\<open>rebuild_database\<close> case-folds every word it indexes, but \<^verbatim>\<open>on_type\<close> looks
  the words of the query up as typed: in the catalogue of \<open>A\<close>, \<open>B\<close> and \<open>C\<close> the query
  \<^verbatim>\<open>red\<close> finds \<open>A\<close> and \<open>C\<close>, and the query \<^verbatim>\<open>RED\<close>, which case-folds to \<^verbatim>\<open>red\<close>,
  finds nothing.
\<close>

theorem query_case_not_folded:
  "casefold ''RED'' = ''red'' \<and>
   evaluate indexed_ABC ''red'' = Some {(''A'', 0), (''C'', 0)} \<and>
   evaluate indexed_ABC ''RED'' = Some {}"
  by (simp add: evaluate_eq indexed_ABC_state iterkeys_def entries_for_map_of
      split.simps isspace_def casefold_def casefold_char_def)

text \<open>
  C2. The claim: a rebuild that fails while reading the catalogue leaves the trie and
  the dictionary as they were. \<^verbatim>\<open>rebuild_database\<close> clears the dictionary in place
  before it reads the catalogue, and replaces the trie only after: when \<^verbatim>\<open>get_tags\<close> of
  \<open>X\<close> raises during a rebuild of the index of \<open>A\<close>, \<open>B\<close> and \<open>C\<close> from the catalogue
  \<open>A\<close>, \<open>X\<close>, \<open>B\<close>, the dictionary is left with the words read until then, and the
  queries \<^verbatim>\<open>red\<close> and \<^verbatim>\<open>blue\<close> no longer find \<open>C\<close> and \<open>B\<close>.
\<close>

theorem failed_rebuild_counterexample:
  "rebuild_database catalog_AXB indexed_ABC = (Inl CatalogError, aborted) \<and>
   word_to_ids aborted \<noteq> word_to_ids indexed_ABC \<and>
   evaluate indexed_ABC ''red'' = Some {(''A'', 0), (''C'', 0)} \<and>
   evaluate aborted ''red'' = Some {(''A'', 0)} \<and>
   evaluate indexed_ABC ''blue'' = Some {(''B'', 0)} \<and>
   evaluate aborted ''blue'' = Some {}"
proof -
  have "rebuild_database catalog_AXB indexed_ABC = (Inl CatalogError, aborted)"
    by (simp add: aborted_def rebuild_database_def add_items_AXB)
  moreover have "word_to_ids aborted \<noteq> word_to_ids indexed_ABC"
    by (simp add: aborted_state indexed_ABC_state)
  moreover have "evaluate indexed_ABC ''red'' = Some {(''A'', 0), (''C'', 0)}"
    "evaluate indexed_ABC ''blue'' = Some {(''B'', 0)}"
    by (simp_all add: evaluate_eq indexed_ABC_state iterkeys_def entries_for_map_of
        split.simps isspace_def)
  moreover have "evaluate aborted ''red'' = Some {(''A'', 0)}" "evaluate aborted ''blue'' = Some {}"
    by (simp_all add: evaluate_eq aborted_state iterkeys_def entries_for_map_of
        split.simps isspace_def)
  ultimately show ?thesis by blast
qed

text \<open>
  C2, amended. Let reading the catalogue raise: the items before the item \<open>it\<close> and the
  subtypes \<open>vs\<close> of \<open>it\<close> before its subtype \<open>v\<close> raise nothing, and \<^verbatim>\<open>get_tags\<close> for
  \<open>v\<close> yields \<open>tags\<close> and then raises \<open>e\<close>. Then \<^verbatim>\<open>rebuild_database\<close> raises \<open>e\<close>, and
  the state differs from the one before in the dictionary only: the trie is the old
  one and the callback was not called. The dictionary, cleared at the start, holds
  exactly the words read before the error: those of the items before \<open>it\<close>, of the
  subtypes \<open>vs\<close>, and of the tags that \<open>v\<close> yielded before it raised; its keys are the
  words that have an identifier.
\<close>

theorem failed_rebuild_keeps_trie:
  assumes "item_list = before @ it # rest" and "reads_ok before"
    and "visual_subtypes it = vs @ v # vs'" and "yields_all it vs"
    and "get_tags it v = (tags, Some e)"
  shows "\<exists>m. rebuild_database item_list st = (Inl e, st\<lparr>word_to_ids := m\<rparr>) \<and>
     (\<forall>k. entries_for m k =
        {(item_id b, u) | b u. b \<in> set before \<and> u \<in> set (visual_subtypes b) \<and> has_word b u k} \<union>
        {(item_id it, u) | u. u \<in> set (vs @ [v]) \<and> has_word it u k}) \<and>
     fst ` set m = {k. entries_for m k \<noteq> {}}"
proof -
  from add_items_raises [OF assms(2) assms(4) assms(3) assms(5), of rest "[]"]
  obtain m where a: "add_items item_list [] = (Some e, m)"
    and e: "\<And>k. entries_for m k =
        entries_for [] k \<union>
        {(item_id b, u) | b u. b \<in> set before \<and> u \<in> set (visual_subtypes b) \<and> has_word b u k} \<union>
        {(item_id it, u) | u. u \<in> set (vs @ [v]) \<and> has_word it u k}"
    unfolding assms(1) by blast
  have "rebuild_database item_list st = (Inl e, st\<lparr>word_to_ids := m\<rparr>)"
    by (simp add: rebuild_database_def a)
  moreover have "proper m"
    using proper_add_items [OF proper_Nil, of item_list] by (simp add: a)
  then have "fst ` set m = {k. entries_for m k \<noteq> {}}" by (rule proper_keys)
  moreover have "\<forall>k. entries_for m k =
        {(item_id b, u) | b u. b \<in> set before \<and> u \<in> set (visual_subtypes b) \<and> has_word b u k} \<union>
        {(item_id it, u) | u. u \<in> set (vs @ [v]) \<and> has_word it u k}"
    using e by (simp add: entries_for_Nil)
  ultimately show ?thesis by blast
qed

theorem failed_rebuild_keeps_trie_witness:
  "catalog_AXB = [item_A] @ item_X # [item_B] \<and> reads_ok [item_A] \<and>
   visual_subtypes item_X = [0] @ 1 # [2] \<and> yields_all item_X [0] \<and>
   get_tags item_X 1 = ([''dark''], Some CatalogError) \<and>
   rebuild_database catalog_AXB indexed_ABC =
     (Inl CatalogError,
      indexed_ABC\<lparr>word_to_ids :=
        [(''red'', {(''A'', 0)}), (''door'', {(''A'', 0)}), (''grey'', {(''X'', 0)}),
         (''box'', {(''X'', 0)}), (''dark'', {(''X'', 1)})]\<rparr>) \<and>
   database aborted = database indexed_ABC \<and> refreshed aborted = refreshed indexed_ABC \<and>
   has_word item_X 2 ''late'' \<and> has_word item_B 0 ''blue'' \<and>
   entries_for (word_to_ids aborted) ''dark'' = {(''X'', 1)} \<and>
   entries_for (word_to_ids aborted) ''late'' = {} \<and>
   entries_for (word_to_ids aborted) ''blue'' = {}"
proof -
  have h1: "catalog_AXB = [item_A] @ item_X # [item_B]"
    by (simp add: catalog_AXB_def)
  have h2: "reads_ok [item_A]"
    by (simp add: reads_ok_def yields_all_def item_A_def)
  have h3: "visual_subtypes item_X = [0] @ 1 # [2]"
    by (simp add: item_X_def)
  have h4: "yields_all item_X [0]"
    by (simp add: yields_all_def item_X_def)
  have h5: "get_tags item_X 1 = ([''dark''], Some CatalogError)"
    by (simp add: item_X_def)
  have w1: "has_word item_X 2 ''late''"
    by (simp add: has_word_def item_X_def split.simps isspace_def casefold_def casefold_char_def)
  have w2: "has_word item_B 0 ''blue''"
    by (simp add: has_word_def item_B_def split.simps isspace_def casefold_def casefold_char_def)
  from failed_rebuild_keeps_trie [OF h1 h2 h3 h4 h5, of indexed_ABC]
  obtain m where r: "rebuild_database catalog_AXB indexed_ABC = (Inl CatalogError, indexed_ABC\<lparr>word_to_ids := m\<rparr>)"
    and k: "fst ` set m = {k. entries_for m k \<noteq> {}}"
    by (elim exE conjE)
  have m: "m = word_to_ids aborted" using r by (simp add: aborted_def)
  have s: "word_to_ids aborted =
      [(''red'', {(''A'', 0)}), (''door'', {(''A'', 0)}), (''grey'', {(''X'', 0)}),
       (''box'', {(''X'', 0)}), (''dark'', {(''X'', 1)})]"
    by (simp add: aborted_state)
  have k': "fst ` set (word_to_ids aborted) = {k. entries_for (word_to_ids aborted) k \<noteq> {}}"
    using k by (simp only: m)
  have "''late'' \<notin> fst ` set (word_to_ids aborted)"
    by (simp add: s)
  then have e1: "entries_for (word_to_ids aborted) ''late'' = {}"
    unfolding k' by simp
  have "''blue'' \<notin> fst ` set (word_to_ids aborted)"
    by (simp add: s)
  then have e2: "entries_for (word_to_ids aborted) ''blue'' = {}"
    unfolding k' by simp
  have e3: "entries_for (word_to_ids aborted) ''dark'' = {(''X'', 1)}"
    by (simp add: s entries_for_map_of)
  have d: "database aborted = database indexed_ABC"
    by (simp add: aborted_state indexed_ABC_state)
  have f: "refreshed aborted = refreshed indexed_ABC"
    by (simp add: aborted_state indexed_ABC_state)
  have r': "rebuild_database catalog_AXB indexed_ABC =
     (Inl CatalogError,
      indexed_ABC\<lparr>word_to_ids :=
        [(''red'', {(''A'', 0)}), (''door'', {(''A'', 0)}), (''grey'', {(''X'', 0)}),
         (''box'', {(''X'', 0)}), (''dark'', {(''X'', 1)})]\<rparr>)"
    using r by (simp only: m s)
  show ?thesis
    by (intro conjI) (fact h1 h2 h3 h4 h5 r' d f w1 w2 e3 e1 e2)+
qed

text \<open>
  C3. A query whose split has no word, the empty text or whitespace only, is answered
  with \<^verbatim>\<open>None\<close>, never with an empty set: that is the one value \<^verbatim>\<open>refresh_cback\<close>
  receives.
\<close>

theorem empty_query_no_filter:
  assumes "split text = []"
  shows "evaluate st text = None \<and> refreshed (type_text text st) = refreshed st @ [None]"
  using assms by (simp add: evaluate_eq type_text_def on_type_refreshed)

theorem empty_query_no_filter_witness:
  "split '''' = [] \<and> evaluate indexed_ABC '''' = None \<and>
   split ''   '' = [] \<and> evaluate indexed_ABC ''   '' = None \<and>
   refreshed (type_text ''   '' indexed_ABC) = [None, None]"
proof -
  have e: "split '''' = []" by (simp add: split.simps)
  have s: "split ''   '' = []" by (simp add: split.simps isspace_def)
  show ?thesis
    using empty_query_no_filter [OF e, of indexed_ABC] empty_query_no_filter [OF s, of indexed_ABC]
    by (simp add: e s indexed_ABC_state)
qed

text \<open>
  C4. A query with at least one word is answered with the union, over its words and
  over the indexed words that start with one of them, of the sets the dictionary holds
  for these: an identifier is found exactly if some word of the query is a prefix of
  some indexed word whose set contains it. A word of the query that no indexed word
  starts with contributes nothing. The witness evaluates the four queries of the
  example on \<open>A\<close>, \<open>B\<close> and \<open>C\<close>.
\<close>

theorem evaluate_union:
  assumes "split text \<noteq> []"
  shows "\<exists>found. evaluate st text = Some found \<and>
     found = (\<Union>tok\<in>set (split text).
                \<Union>word\<in>set (iterkeys (database st) tok). entries_for (word_to_ids st) word) \<and>
     (\<forall>i. i \<in> found \<longleftrightarrow>
        (\<exists>tok\<in>set (split text). \<exists>word\<in>set (keys (database st)).
            prefix tok word \<and> i \<in> entries_for (word_to_ids st) word))"
  using assms by (auto simp: evaluate_eq iterkeys_def)

theorem evaluate_union_witness:
  "split ''red'' \<noteq> [] \<and> split ''red blue'' \<noteq> [] \<and> split ''doo'' \<noteq> [] \<and> split ''xyz'' \<noteq> [] \<and>
   evaluate indexed_ABC ''red'' = Some {(''A'', 0), (''C'', 0)} \<and>
   evaluate indexed_ABC ''red blue'' = Some {(''A'', 0), (''B'', 0), (''C'', 0)} \<and>
   evaluate indexed_ABC ''doo'' = Some {(''A'', 0), (''B'', 0)} \<and>
   evaluate indexed_ABC ''xyz'' = Some {}"
proof -
  have s: "split ''red'' = [''red'']" "split ''red blue'' = [''red'', ''blue'']"
    "split ''doo'' = [''doo'']" "split ''xyz'' = [''xyz'']"
    by (simp_all add: split.simps isspace_def)
  have n: "split ''red'' \<noteq> []" "split ''red blue'' \<noteq> []" "split ''doo'' \<noteq> []" "split ''xyz'' \<noteq> []"
    by (simp_all add: s)
  show ?thesis
    using evaluate_union [OF n(1), of indexed_ABC] evaluate_union [OF n(2), of indexed_ABC]
      evaluate_union [OF n(3), of indexed_ABC] evaluate_union [OF n(4), of indexed_ABC]
    by (auto simp: s indexed_ABC_state iterkeys_def entries_for_map_of)
qed

text \<open>
  C5. A rebuild that completes keeps the search text and calls \<^verbatim>\<open>refresh_cback\<close> once
  more, with the answer of the new index to that text. Whatever is typed afterwards,
  every identifier found is a subtype of an item of the catalogue the index was
  rebuilt from: an item no longer in the catalogue is not found.
\<close>

theorem rebuild_requeries:
  assumes "rebuild_database item_list st = (Inr (), st')"
  shows "search_var st' = search_var st \<and>
    refreshed st' = refreshed st @ [evaluate st' (search_var st)] \<and>
    (\<forall>texts text found. evaluate (fold type_text texts st') text = Some found \<longrightarrow>
       found \<subseteq> (\<Union>it\<in>set item_list. Pair (item_id it) ` set (visual_subtypes it)))"
proof (intro conjI allI impI)
  show "search_var st' = search_var st"
    using assms by (rule rebuild_database_refreshed)
  show "refreshed st' = refreshed st @ [evaluate st' (search_var st)]"
    using assms by (rule rebuild_database_refreshed)
next
  fix texts q found
  assume "evaluate (fold type_text texts st') q = Some found"
  moreover have "database st' = Trie (map fst (word_to_ids st'))"
    using assms by (rule rebuild_database_consistent)
  ultimately have f: "evaluate st' q = Some found"
    by (simp add: evaluate_fold_type_text)
  then have "split q \<noteq> []" by (auto simp: evaluate_eq)
  from evaluate_rebuilt [OF assms this] f
  show "found \<subseteq> (\<Union>it\<in>set item_list. Pair (item_id it) ` set (visual_subtypes it))"
    by auto
qed

theorem rebuild_requeries_witness:
  "rebuild_database catalog_BC typed_red = (Inr (), snd (rebuild_database catalog_BC typed_red)) \<and>
   refreshed typed_red = [None, Some {(''A'', 0), (''C'', 0)}] \<and>
   search_var (snd (rebuild_database catalog_BC typed_red)) = ''red'' \<and>
   refreshed (snd (rebuild_database catalog_BC typed_red)) =
     [None, Some {(''A'', 0), (''C'', 0)}, Some {(''C'', 0)}] \<and>
   evaluate (fold type_text [''blue''] (snd (rebuild_database catalog_BC typed_red))) ''door'' =
     Some {(''B'', 0)} \<and>
   {(''B'', 0)} \<subseteq> (\<Union>it\<in>set catalog_BC. Pair (item_id it) ` set (visual_subtypes it)) \<and>
   (''A'', 0) \<notin> (\<Union>it\<in>set catalog_BC. Pair (item_id it) ` set (visual_subtypes it))"
proof -
  have r: "rebuild_database catalog_BC typed_red = (Inr (), snd (rebuild_database catalog_BC typed_red))"
    by (simp add: rebuild_BC)
  have e: "evaluate (fold type_text [''blue''] (snd (rebuild_database catalog_BC typed_red))) ''door'' =
      Some {(''B'', 0)}"
    by (simp add: rebuild_BC evaluate_eq type_text_def on_type_def refresh_cback_def
        iterkeys_def getitem_def entries_for_map_of split.simps isspace_def)
  have c: "(''A'', 0) \<notin> (\<Union>it\<in>set catalog_BC. Pair (item_id it) ` set (visual_subtypes it))"
    by (simp add: catalog_BC_def item_B_def item_C_def)
  have t: "refreshed typed_red = [None, Some {(''A'', 0), (''C'', 0)}]"
    by (simp add: typed_red_state)
  have b: "{(''B'', 0)} \<subseteq> (\<Union>it\<in>set catalog_BC. Pair (item_id it) ` set (visual_subtypes it))"
    using rebuild_requeries [OF r] e by blast
  have s: "search_var (snd (rebuild_database catalog_BC typed_red)) = ''red''"
    "refreshed (snd (rebuild_database catalog_BC typed_red)) =
       [None, Some {(''A'', 0), (''C'', 0)}, Some {(''C'', 0)}]"
    by (simp_all add: rebuild_BC)
  from r t s e b c show ?thesis by blast
qed

text \<open>
  C6. The claim: the words of the trie are the keys of the dictionary, and the two are
  never changed independently. A rebuild that reading the catalogue aborts has changed
  the dictionary and not the trie: \<^verbatim>\<open>blue\<close> is then enumerated by the trie and is no key
  of the dictionary, and the query \<^verbatim>\<open>blue\<close> adds it to the dictionary alone, with an
  empty set.
\<close>

theorem torn_index_counterexample:
  "rebuild_database catalog_ABC (init initial) = (Inr (), indexed_ABC) \<and>
   rebuild_database catalog_AXB indexed_ABC = (Inl CatalogError, aborted) \<and>
   database aborted = database indexed_ABC \<and>
   word_to_ids aborted \<noteq> word_to_ids indexed_ABC \<and>
   ''blue'' \<in> set (iterkeys (database aborted) ''b'') \<and>
   ''blue'' \<notin> fst ` set (word_to_ids aborted) \<and>
   set (keys (database aborted)) \<noteq> fst ` set (word_to_ids aborted) \<and>
   database (type_text ''blue'' aborted) = database aborted \<and>
   word_to_ids (type_text ''blue'' aborted) = word_to_ids aborted @ [(''blue'', {})]"
proof -
  have 1: "rebuild_database catalog_ABC (init initial) = (Inr (), indexed_ABC)"
    by (simp add: rebuild_ABC indexed_ABC_state)
  have 2: "rebuild_database catalog_AXB indexed_ABC = (Inl CatalogError, aborted)"
    by (simp add: aborted_def rebuild_database_def add_items_AXB)
  have 3: "database aborted = database indexed_ABC"
    by (simp add: aborted_state indexed_ABC_state)
  have 4: "word_to_ids aborted \<noteq> word_to_ids indexed_ABC"
    by (simp add: aborted_state indexed_ABC_state)
  have 5: "''blue'' \<in> set (iterkeys (database aborted) ''b'')"
    by (simp add: aborted_state iterkeys_def)
  have 6: "''blue'' \<notin> fst ` set (word_to_ids aborted)"
    by (simp add: aborted_state)
  have "''blue'' \<in> set (keys (database aborted))"
    by (simp add: aborted_state)
  with 6 have 7: "set (keys (database aborted)) \<noteq> fst ` set (word_to_ids aborted)"
    by auto
  have 8: "database (type_text ''blue'' aborted) = database aborted"
    by (simp add: type_text_def on_type_globals)
  have 9: "word_to_ids (type_text ''blue'' aborted) = word_to_ids aborted @ [(''blue'', {})]"
    by (simp add: type_text_def on_type_def refresh_cback_def aborted_state iterkeys_def
        getitem_def split.simps isspace_def)
  show ?thesis
    by (intro conjI) (fact 1 2 3 4 5 6 7 8 9)+
qed

text \<open>
  C6, amended. After a rebuild that completes, and after any texts typed since, which
  change neither the trie nor the dictionary, the trie is the trie of the keys of the
  dictionary: its keys are distinct and are the keys of the dictionary, the empty
  prefix enumerates them all, every word that a prefix enumerates has a non-empty set
  in the dictionary, and every key of the dictionary is enumerated by itself as a
  prefix.
\<close>

theorem index_consistent:
  assumes "rebuild_database item_list st = (Inr (), st')" and "s = fold type_text texts st'"
  shows "database s = database st' \<and> word_to_ids s = word_to_ids st' \<and>
    database s = Trie (map fst (word_to_ids s)) \<and>
    distinct (keys (database s)) \<and>
    set (keys (database s)) = fst ` set (word_to_ids s) \<and>
    set (iterkeys (database s) []) = fst ` set (word_to_ids s) \<and>
    (\<forall>p. \<forall>w\<in>set (iterkeys (database s) p). entries_for (word_to_ids s) w \<noteq> {}) \<and>
    (\<forall>w\<in>fst ` set (word_to_ids s). w \<in> set (iterkeys (database s) w))"
proof -
  have d': "database st' = Trie (map fst (word_to_ids st'))"
    and p': "proper (word_to_ids st')"
    using assms(1) by (rule rebuild_database_consistent)+
  have same: "database s = database st'" "word_to_ids s = word_to_ids st'"
    using fold_type_text_consistent [OF d', of texts] by (simp_all add: assms(2))
  have d: "database s = Trie (map fst (word_to_ids s))" and p: "proper (word_to_ids s)"
    using d' p' by (simp_all add: same)
  have k: "keys (database s) = map fst (word_to_ids s)" by (simp add: d)
  have "distinct (keys (database s))" using p by (simp add: k proper_def)
  moreover have "set (keys (database s)) = fst ` set (word_to_ids s)" by (simp add: k)
  moreover have "set (iterkeys (database s) []) = fst ` set (word_to_ids s)"
    by (simp add: iterkeys_def k)
  moreover have "\<forall>p. \<forall>w\<in>set (iterkeys (database s) p). entries_for (word_to_ids s) w \<noteq> {}"
    using p by (auto simp: iterkeys_def k proper_def)
  moreover have "\<forall>w\<in>fst ` set (word_to_ids s). w \<in> set (iterkeys (database s) w)"
    by (auto simp: iterkeys_def k)
  ultimately show ?thesis using d same by blast
qed

theorem index_consistent_witness:
  "rebuild_database catalog_ABC (init initial) = (Inr (), indexed_ABC) \<and>
   typed_red = fold type_text [''red''] indexed_ABC \<and>
   database typed_red = database indexed_ABC \<and>
   word_to_ids typed_red = word_to_ids indexed_ABC \<and>
   keys (database typed_red) = [''red'', ''door'', ''blue'', ''wall''] \<and>
   map fst (word_to_ids typed_red) = [''red'', ''door'', ''blue'', ''wall''] \<and>
   set (iterkeys (database typed_red) []) = fst ` set (word_to_ids typed_red) \<and>
   iterkeys (database typed_red) ''d'' = [''door''] \<and>
   entries_for (word_to_ids typed_red) ''door'' = {(''A'', 0), (''B'', 0)}"
proof -
  have r: "rebuild_database catalog_ABC (init initial) = (Inr (), indexed_ABC)"
    by (simp add: rebuild_ABC indexed_ABC_state)
  have t: "typed_red = fold type_text [''red''] indexed_ABC"
    by (simp add: typed_red_def)
  note c = index_consistent [OF r t]
  have 1: "database typed_red = database indexed_ABC"
    using c by (elim conjE)
  have 2: "word_to_ids typed_red = word_to_ids indexed_ABC"
    using c by (elim conjE)
  have 3: "set (iterkeys (database typed_red) []) = fst ` set (word_to_ids typed_red)"
    using c by (elim conjE)
  have 4: "keys (database typed_red) = [''red'', ''door'', ''blue'', ''wall'']"
    by (simp add: typed_red_state)
  have 5: "map fst (word_to_ids typed_red) = [''red'', ''door'', ''blue'', ''wall'']"
    by (simp add: typed_red_state)
  have 6: "iterkeys (database typed_red) ''d'' = [''door'']"
    by (simp add: typed_red_state iterkeys_def)
  have 7: "entries_for (word_to_ids typed_red) ''door'' = {(''A'', 0), (''B'', 0)}"
    by (simp add: typed_red_state entries_for_map_of)
  show ?thesis
    by (intro conjI) (fact r t 1 2 3 4 5 6 7)+
qed

text \<open>
  C7. Two rebuilds from the same catalogue that complete, from whatever states, give
  indexes that answer every query alike; and a rebuild repeated right after one that
  completed completes too, with the same answers.
\<close>

theorem rebuild_idempotent:
  assumes "rebuild_database item_list st = (Inr (), st1)"
    and "rebuild_database item_list st' = (Inr (), st1')"
  shows "evaluate st1' text = evaluate st1 text \<and>
    (\<exists>st2. rebuild_database item_list st1 = (Inr (), st2) \<and> evaluate st2 text = evaluate st1 text)"
proof -
  from assms(1) obtain m where a: "add_items item_list [] = (None, m)"
    and c: "type_cback st = Some On_type"
    and d: "database st1 = Trie (map fst m)" and w: "word_to_ids st1 = m"
    by (rule rebuild_database_ok)
  from assms(2) obtain m' where a': "add_items item_list [] = (None, m')"
    and d': "database st1' = Trie (map fst m')" and w': "word_to_ids st1' = m'"
    by (rule rebuild_database_ok)
  have same: "evaluate st1' text = evaluate st1 text"
    using a a' by (simp add: evaluate_eq d w d' w')
  have "type_cback st1 = Some On_type"
    using rebuild_database_refreshed(2) [OF assms(1)] c by simp
  then have "fst (rebuild_database item_list st1) = Inr ()"
    using a by (simp add: rebuild_database_succeeds)
  then obtain st2 where r2: "rebuild_database item_list st1 = (Inr (), st2)"
    by (cases "rebuild_database item_list st1") simp
  from r2 obtain m2 where a2: "add_items item_list [] = (None, m2)"
    and d2: "database st2 = Trie (map fst m2)" and w2: "word_to_ids st2 = m2"
    by (rule rebuild_database_ok)
  have "evaluate st2 text = evaluate st1 text"
    using a a2 by (simp add: evaluate_eq d w d2 w2)
  with same r2 show ?thesis by blast
qed

theorem rebuild_idempotent_witness:
  "rebuild_database catalog_ABC (init initial) = (Inr (), indexed_ABC) \<and>
   rebuild_database catalog_ABC typed_red = (Inr (), snd (rebuild_database catalog_ABC typed_red)) \<and>
   evaluate (snd (rebuild_database catalog_ABC typed_red)) ''door'' = evaluate indexed_ABC ''door'' \<and>
   evaluate indexed_ABC ''door'' = Some {(''A'', 0), (''B'', 0)} \<and>
   fst (rebuild_database catalog_ABC indexed_ABC) = Inr () \<and>
   evaluate (snd (rebuild_database catalog_ABC indexed_ABC)) ''door'' = Some {(''A'', 0), (''B'', 0)}"
proof -
  have r: "rebuild_database catalog_ABC (init initial) = (Inr (), indexed_ABC)"
    by (simp add: rebuild_ABC indexed_ABC_state)
  have r': "rebuild_database catalog_ABC typed_red = (Inr (), snd (rebuild_database catalog_ABC typed_red))"
    by (simp add: rebuild_ABC_typed_red)
  have e: "evaluate indexed_ABC ''door'' = Some {(''A'', 0), (''B'', 0)}"
    by (simp add: evaluate_eq indexed_ABC_state iterkeys_def entries_for_map_of split.simps isspace_def)
  from rebuild_idempotent [OF r r', of "''door''"]
  have "evaluate (snd (rebuild_database catalog_ABC typed_red)) ''door'' = evaluate indexed_ABC ''door''"
    and "\<exists>st2. rebuild_database catalog_ABC indexed_ABC = (Inr (), st2) \<and>
           evaluate st2 ''door'' = evaluate indexed_ABC ''door''"
    by blast+
  then show ?thesis using r r' e by auto
qed




text \<open>
  C9. After a rebuild that completes, typing any texts changes neither the trie nor the
  dictionary (no lookup inserts a key), and every query is answered as before.
\<close>

theorem typing_keeps_index:
  assumes "rebuild_database item_list st = (Inr (), st')"
  shows "database (fold type_text texts st') = database st' \<and>
    word_to_ids (fold type_text texts st') = word_to_ids st' \<and>
    evaluate (fold type_text texts st') text = evaluate st' text"
proof -
  have "database st' = Trie (map fst (word_to_ids st'))"
    using assms by (rule rebuild_database_consistent)
  then have "database (fold type_text texts st') = database st' \<and>
      word_to_ids (fold type_text texts st') = word_to_ids st'"
    by (rule fold_type_text_consistent)
  then show ?thesis by (simp add: evaluate_eq)
qed

theorem typing_keeps_index_witness:
  "rebuild_database catalog_ABC (init initial) = (Inr (), indexed_ABC) \<and>
   word_to_ids (fold type_text [''red'', ''zebra'', ''door''] indexed_ABC) =
     [(''red'', {(''A'', 0), (''C'', 0)}), (''door'', {(''A'', 0), (''B'', 0)}),
      (''blue'', {(''B'', 0)}), (''wall'', {(''C'', 0)})] \<and>
   database (fold type_text [''red'', ''zebra'', ''door''] indexed_ABC) =
     Trie [''red'', ''door'', ''blue'', ''wall''] \<and>
   evaluate (fold type_text [''red'', ''zebra'', ''door''] indexed_ABC) ''red'' =
     Some {(''A'', 0), (''C'', 0)}"
proof -
  have r: "rebuild_database catalog_ABC (init initial) = (Inr (), indexed_ABC)"
    by (simp add: rebuild_ABC indexed_ABC_state)
  have e: "evaluate indexed_ABC ''red'' = Some {(''A'', 0), (''C'', 0)}"
    by (simp add: evaluate_eq indexed_ABC_state iterkeys_def entries_for_map_of split.simps isspace_def)
  have f: "word_to_ids indexed_ABC =
     [(''red'', {(''A'', 0), (''C'', 0)}), (''door'', {(''A'', 0), (''B'', 0)}),
      (''blue'', {(''B'', 0)}), (''wall'', {(''C'', 0)})]"
    "database indexed_ABC = Trie [''red'', ''door'', ''blue'', ''wall'']"
    by (simp_all add: indexed_ABC_state)
  show ?thesis
    using typing_keeps_index [OF r, of "[''red'', ''zebra'', ''door'']" "''red''"] r
    by (simp only: e f simp_thms)
qed

text \<open>
  C10. \<^verbatim>\<open>rebuild_database\<close> calls \<^verbatim>\<open>_type_cback\<close> as its last step, whatever it is.
  While it is \<^verbatim>\<open>None\<close> the rebuild raises and \<^verbatim>\<open>refresh_cback\<close> is not called. When
  reading the catalogue raises nothing, the error is \<^verbatim>\<open>TypeError\<close> and it is raised
  with the dictionary and the trie already rebuilt from the catalogue; with a callback
  stored, as after \<^verbatim>\<open>init\<close>, the rebuild completes and has called \<^verbatim>\<open>refresh_cback\<close>
  once, with the answer of the new index. When reading the catalogue raises, that
  error comes first, and the trie is the old one.
\<close>

theorem rebuild_needs_init:
  "(type_cback st = None \<longrightarrow>
      (\<exists>e st'. rebuild_database item_list st = (Inl e, st') \<and> refreshed st' = refreshed st)) \<and>
   (reads_ok item_list \<longrightarrow>
      (\<exists>st'. rebuild_database item_list st =
               (if type_cback st = None then Inl TypeError else Inr (), st') \<and>
         database st' = Trie (map fst (word_to_ids st')) \<and>
         (\<forall>k. entries_for (word_to_ids st') k =
            {(item_id it, v) | it v.
               it \<in> set item_list \<and> v \<in> set (visual_subtypes it) \<and> has_word it v k}) \<and>
         refreshed st' =
           (if type_cback st = None then refreshed st
            else refreshed st @ [evaluate st' (search_var st)]))) \<and>
   (\<not> reads_ok item_list \<longrightarrow>
      (\<exists>e st'. rebuild_database item_list st = (Inl e, st') \<and>
         database st' = database st \<and> refreshed st' = refreshed st \<and>
         (\<exists>it\<in>set item_list. \<exists>v\<in>set (visual_subtypes it). snd (get_tags it v) = Some e))) \<and>
   type_cback (init st) = Some On_type"
proof -
  obtain r m where a: "add_items item_list [] = (r, m)"
    by (cases "add_items item_list []")
  have ok: "r = None \<longleftrightarrow> reads_ok item_list"
    using add_items_None_iff [of item_list "[]"] by (simp add: a)
  have A: "\<exists>e st'. rebuild_database item_list st = (Inl e, st') \<and> refreshed st' = refreshed st"
    if "type_cback st = None"
    using that by (cases r) (simp_all add: rebuild_database_def a call_type_cback_def)
  have B: "\<exists>st'. rebuild_database item_list st =
               (if type_cback st = None then Inl TypeError else Inr (), st') \<and>
         database st' = Trie (map fst (word_to_ids st')) \<and>
         (\<forall>k. entries_for (word_to_ids st') k =
            {(item_id it, v) | it v.
               it \<in> set item_list \<and> v \<in> set (visual_subtypes it) \<and> has_word it v k}) \<and>
         refreshed st' =
           (if type_cback st = None then refreshed st
            else refreshed st @ [evaluate st' (search_var st)])"
    if "reads_ok item_list"
  proof -
    from that have a': "add_items item_list [] = (None, m)" using ok a by simp
    have e: "\<And>k. entries_for m k =
        {(item_id it, v) | it v.
           it \<in> set item_list \<and> v \<in> set (visual_subtypes it) \<and> has_word it v k}"
      using add_items_entries [OF a'] by (simp add: entries_for_Nil)
    show ?thesis
    proof (cases "type_cback st")
      case None
      then have "rebuild_database item_list st =
          (Inl TypeError, st\<lparr>word_to_ids := m, database := Trie (map fst m)\<rparr>)"
        by (simp add: rebuild_database_def a' call_type_cback_def)
      then show ?thesis using None e by simp
    next
      case (Some c)
      then have c: "type_cback st = Some On_type" by (cases c) simp
      have "fst (rebuild_database item_list st) = Inr ()"
        by (rule rebuild_database_succeeds) (simp_all add: a' c)
      then obtain st' where r': "rebuild_database item_list st = (Inr (), st')"
        by (cases "rebuild_database item_list st") simp
      from r' obtain m' where "add_items item_list [] = (None, m')"
        and d: "database st' = Trie (map fst m')" and w: "word_to_ids st' = m'"
        by (rule rebuild_database_ok)
      then have m': "m' = m" using a' by simp
      have f: "refreshed st' = refreshed st @ [evaluate st' (search_var st)]"
        using r' by (rule rebuild_database_refreshed)
      show ?thesis using r' d w f e c by (simp add: m')
    qed
  qed
  have C: "\<exists>e st'. rebuild_database item_list st = (Inl e, st') \<and>
         database st' = database st \<and> refreshed st' = refreshed st \<and>
         (\<exists>it\<in>set item_list. \<exists>v\<in>set (visual_subtypes it). snd (get_tags it v) = Some e)"
    if "\<not> reads_ok item_list"
  proof -
    from that obtain e where r: "r = Some e" using ok by (cases r) simp_all
    then have "fst (add_items item_list []) = Some e" by (simp add: a)
    then have "\<exists>it\<in>set item_list. \<exists>v\<in>set (visual_subtypes it). snd (get_tags it v) = Some e"
      by (rule add_items_error_source)
    moreover have "rebuild_database item_list st = (Inl e, st\<lparr>word_to_ids := m\<rparr>)"
      by (simp add: rebuild_database_def a r)
    ultimately show ?thesis by simp
  qed
  have D: "type_cback (init st) = Some On_type" by (simp add: init_def)
  from A B C D show ?thesis by blast
qed

theorem rebuild_needs_init_witness:
  "type_cback initial = None \<and> reads_ok catalog_ABC \<and> \<not> reads_ok catalog_AXB \<and>
   (\<exists>e st'. rebuild_database catalog_ABC initial = (Inl e, st') \<and> refreshed st' = refreshed initial) \<and>
   rebuild_database catalog_ABC initial =
     (Inl TypeError,
      \<lparr>database = Trie [''red'', ''door'', ''blue'', ''wall''],
       word_to_ids = [(''red'', {(''A'', 0), (''C'', 0)}), (''door'', {(''A'', 0), (''B'', 0)}),
                      (''blue'', {(''B'', 0)}), (''wall'', {(''C'', 0)})],
       type_cback = None, search_var = [], selection = None, refreshed = []\<rparr>) \<and>
   type_cback (init initial) = Some On_type \<and>
   rebuild_database catalog_ABC (init initial) = (Inr (), indexed_ABC) \<and>
   refreshed indexed_ABC = refreshed (init initial) @ [evaluate indexed_ABC (search_var (init initial))] \<and>
   refreshed indexed_ABC = [None] \<and>
   rebuild_database catalog_AXB initial =
     (Inl CatalogError,
      \<lparr>database = Trie [],
       word_to_ids = [(''red'', {(''A'', 0)}), (''door'', {(''A'', 0)}), (''grey'', {(''X'', 0)}),
                      (''box'', {(''X'', 0)}), (''dark'', {(''X'', 1)})],
       type_cback = None, search_var = [], selection = None, refreshed = []\<rparr>) \<and>
   snd (get_tags item_X 1) = Some CatalogError"
proof -
  note t = rebuild_needs_init [of initial catalog_ABC]
  have 1: "type_cback initial = None" by (simp add: initial_def)
  have 2: "reads_ok catalog_ABC"
    by (simp add: reads_ok_def yields_all_def catalog_ABC_def item_A_def item_B_def item_C_def)
  have 3: "\<not> reads_ok catalog_AXB"
    by (simp add: reads_ok_def yields_all_def catalog_AXB_def item_A_def item_B_def item_X_def)
  have 4: "\<exists>e st'. rebuild_database catalog_ABC initial = (Inl e, st') \<and>
      refreshed st' = refreshed initial"
    using t 1 by (elim conjE) (erule mp)
  have 5: "type_cback (init initial) = Some On_type"
    using t by (elim conjE)
  have 6: "rebuild_database catalog_ABC (init initial) = (Inr (), indexed_ABC)"
    by (simp add: rebuild_ABC indexed_ABC_state)
  have 7: "refreshed indexed_ABC = [None]" by (simp add: indexed_ABC_state)
  have 8: "refreshed indexed_ABC =
      refreshed (init initial) @ [evaluate indexed_ABC (search_var (init initial))]"
    by (simp add: 7 init_def initial_def evaluate_eq split.simps)
  have 9: "snd (get_tags item_X 1) = Some CatalogError" by (simp add: item_X_def)
  show ?thesis
    by (intro conjI) (fact 1 2 3 4 5 6 7 8 9 rebuild_ABC_initial rebuild_AXB_initial)+
qed

end
